theory Spec2Isabelle
  imports Main
begin

section \<open>pyinhdl: embedded Python snippets in HDL text\<close>

text \<open>
  A shallow embedding of \<^verbatim>\<open>pyinhdl.py\<close>. Python strings are lists of characters
  (code points below 256), the file object \<^verbatim>\<open>fp\<close> is the list of lines its iteration
  yields, and \<^verbatim>\<open>fp_out\<close> is the text written to it so far (each \<^verbatim>\<open>fp_out.write\<close>
  appends). The Python interpreter behind \<^verbatim>\<open>compile\<close>, \<^verbatim>\<open>eval\<close> and \<^verbatim>\<open>exec\<close> is not
  part of the program: it is a parameter of every function that calls it.
\<close>

subsection \<open>Strings\<close>

abbreviation NL :: char where
  "NL \<equiv> CHR 0x0A"

abbreviation marker :: char where
  "marker \<equiv> CHR 0x60"

abbreviation space :: char where
  "space \<equiv> CHR 0x20"

text \<open>The characters \<^verbatim>\<open>str.strip()\<close> removes, among the code points below 256.\<close>

definition is_space :: "char \<Rightarrow> bool" where
  "is_space c =
     (let n = (of_char c :: nat)
      in (9 \<le> n \<and> n \<le> 13) \<or> (28 \<le> n \<and> n \<le> 32) \<or> n = 133 \<or> n = 160)"

definition lstrip :: "string \<Rightarrow> string" where
  "lstrip s = dropWhile is_space s"

definition rstrip :: "string \<Rightarrow> string" where
  "rstrip s = rev (dropWhile is_space (rev s))"

definition strip :: "string \<Rightarrow> string" where
  "strip s = rstrip (lstrip s)"

text \<open>\<^verbatim>\<open>s.startswith(p)\<close>.\<close>

definition startswith :: "string \<Rightarrow> string \<Rightarrow> bool" where
  "startswith s p = (take (length p) s = p)"

text \<open>\<^verbatim>\<open>s[a:b]\<close> for indices \<open>0 \<le> a\<close>, \<open>0 \<le> b\<close>; empty when \<open>b \<le> a\<close>.\<close>

definition slice :: "string \<Rightarrow> nat \<Rightarrow> nat \<Rightarrow> string" where
  "slice s a b = take (b - a) (drop a s)"

text \<open>\<^verbatim>\<open>s.split("\n")\<close>: never empty, one more piece than there are newlines.\<close>

fun split_nl :: "string \<Rightarrow> string list" where
  "split_nl [] = [[]]"
| "split_nl (c # cs) =
     (if c = NL then [] # split_nl cs
      else (case split_nl cs of [] \<Rightarrow> [[c]] | x # xs \<Rightarrow> (c # x) # xs))"

subsection \<open>Python values and the process state\<close>

text \<open>
  The values a snippet can produce: the usual scalars, and \<open>PyOther t b\<close> for any other
  object, given by the text \<^verbatim>\<open>str\<close> returns for it and by its truth value.
\<close>

datatype pyval = PyNone | PyBool bool | PyInt int | PyStr string | PyOther string bool

definition digit_char :: "nat \<Rightarrow> char" where
  "digit_char d = char_of (48 + d)"

fun digits :: "nat \<Rightarrow> string" where
  "digits n = (if n < 10 then [digit_char n] else digits (n div 10) @ [digit_char (n mod 10)])"

declare digits.simps [simp del]

text \<open>\<^verbatim>\<open>str(v)\<close>.\<close>

fun py_str :: "pyval \<Rightarrow> string" where
  "py_str PyNone = ''None''"
| "py_str (PyBool b) = (if b then ''True'' else ''False'')"
| "py_str (PyInt i) = (if i < 0 then CHR ''-'' # digits (nat (- i)) else digits (nat i))"
| "py_str (PyStr s) = s"
| "py_str (PyOther t b) = t"

text \<open>\<^verbatim>\<open>bool(v)\<close>: a value is falsy when this is \<open>False\<close>.\<close>

fun py_truthy :: "pyval \<Rightarrow> bool" where
  "py_truthy PyNone = False"
| "py_truthy (PyBool b) = b"
| "py_truthy (PyInt i) = (i \<noteq> 0)"
| "py_truthy (PyStr s) = (s \<noteq> [])"
| "py_truthy (PyOther t b) = b"

datatype pyexn =
    SyntaxError string
  | ValueError string
  | ZeroDivisionError string
  | NameError string
  | OtherError string

text \<open>A stream object (\<^verbatim>\<open>sys.__stdout__\<close> or an \<^verbatim>\<open>io.StringIO\<close>): what was written, and
  whether it was closed.\<close>

record stream =
  buf :: string
  is_closed :: bool

text \<open>
  The part of the Python process the program reads and writes. Stream objects live in a
  store indexed by references; \<open>sys_stdout\<close> is the reference \<^verbatim>\<open>sys.stdout\<close> holds, and
  \<open>next_ref\<close> is the first reference not yet allocated.
\<close>

record pystate =
  global_dict :: "string \<rightharpoonup> pyval"
  sys_stdout :: nat
  streams :: "nat \<Rightarrow> stream"
  next_ref :: nat
  sys_path :: "string list"

text \<open>\<^verbatim>\<open>s = io.StringIO()\<close>.\<close>

definition new_StringIO :: "pystate \<Rightarrow> nat \<times> pystate" where
  "new_StringIO st =
     (next_ref st,
      st\<lparr>streams := (streams st)(next_ref st := \<lparr>buf = [], is_closed = False\<rparr>),
         next_ref := Suc (next_ref st)\<rparr>)"

text \<open>\<^verbatim>\<open>s.getvalue()\<close>: raises \<^verbatim>\<open>ValueError\<close> on a closed stream.\<close>

definition getvalue :: "nat \<Rightarrow> pystate \<Rightarrow> pyexn + string" where
  "getvalue s st =
     (if is_closed (streams st s) then Inl (ValueError ''I/O operation on closed file'')
      else Inr (buf (streams st s)))"

text \<open>\<^verbatim>\<open>s.close()\<close>.\<close>

definition close_stream :: "nat \<Rightarrow> pystate \<Rightarrow> pystate" where
  "close_stream s st = st\<lparr>streams := (streams st)(s := (streams st s)\<lparr>is_closed := True\<rparr>)\<rparr>"

subsection \<open>The interpreter\<close>

datatype mode = EvalMode | ExecMode

text \<open>
  \<open>py_compile src m\<close> is \<^verbatim>\<open>compile(src, '<stdin>', m)\<close>: \<open>None\<close> when it returns a code
  object, \<open>Some e\<close> when it raises \<open>e\<close>. \<open>py_eval\<close> and \<open>py_exec\<close> run compiled code in the
  dictionary \<open>global_dict\<close> of the state; they may change every part of the state, and an
  error leaves the state as it was when the error was raised.
\<close>

record interp =
  py_compile :: "string \<Rightarrow> mode \<Rightarrow> pyexn option"
  py_eval :: "string \<Rightarrow> pystate \<Rightarrow> (pyexn + pyval) \<times> pystate"
  py_exec :: "string \<Rightarrow> pystate \<Rightarrow> pyexn option \<times> pystate"

text \<open>\<^verbatim>\<open>exec(src, global_dict)\<close> on a string: compile in \<^verbatim>\<open>exec\<close> mode, then run.\<close>

definition exec_str :: "interp \<Rightarrow> string \<Rightarrow> pystate \<Rightarrow> pyexn option \<times> pystate" where
  "exec_str I src st =
     (case py_compile I src ExecMode of
        Some e \<Rightarrow> (Some e, st)
      | None \<Rightarrow> py_exec I src st)"

fun is_SyntaxError :: "pyexn \<Rightarrow> bool" where
  "is_SyntaxError (SyntaxError m) = True"
| "is_SyntaxError e = False"

subsection \<open>exec_inline, exec_block\<close>

text \<open>
  The statement branch of \<^verbatim>\<open>exec_inline\<close> and the body of \<^verbatim>\<open>exec_block\<close>: redirect
  \<^verbatim>\<open>sys.stdout\<close> to a new \<^verbatim>\<open>StringIO\<close>, run, read the buffer, close it, put the old
  stream back. Nothing catches an error of \<open>run\<close> or of \<^verbatim>\<open>getvalue\<close>.
\<close>

definition capture :: "(pystate \<Rightarrow> pyexn option \<times> pystate) \<Rightarrow> pystate \<Rightarrow> (pyexn + string) \<times> pystate" where
  "capture run st =
     (let old_stdout = sys_stdout st;
          (s, st1) = new_StringIO st;
          st2 = st1\<lparr>sys_stdout := s\<rparr>
      in case run st2 of
           (Some e, st3) \<Rightarrow> (Inl e, st3)
         | (None, st3) \<Rightarrow>
             (case getvalue s st3 of
                Inl e \<Rightarrow> (Inl e, st3)
              | Inr res \<Rightarrow> (Inr res, (close_stream s st3)\<lparr>sys_stdout := old_stdout\<rparr>)))"

definition exec_inline :: "interp \<Rightarrow> string \<Rightarrow> pystate \<Rightarrow> (pyexn + string) \<times> pystate" where
  "exec_inline I src st =
     (case py_compile I src EvalMode of
        None \<Rightarrow>
          (case py_eval I src st of
             (Inl e, st') \<Rightarrow> (Inl e, st')
           | (Inr res, st') \<Rightarrow> (Inr (py_str res), st'))
      | Some e \<Rightarrow>
          if is_SyntaxError e then
            (case py_compile I src ExecMode of
               Some e' \<Rightarrow> (Inl e', st)
             | None \<Rightarrow> capture (py_exec I src) st)
          else (Inl e, st))"

definition exec_block :: "interp \<Rightarrow> string \<Rightarrow> pystate \<Rightarrow> (pyexn + string) \<times> pystate" where
  "exec_block I src st = capture (exec_str I src) st"

subsection \<open>Context set-up\<close>

text \<open>\<^verbatim>\<open>'sys.path.insert(0, "%s")\n' % (import_path)\<close>: the path goes between the quotes as it is.\<close>

definition insert_prefix :: string where
  "insert_prefix = ''sys.path.insert(0, '' @ [CHR 0x22]"

definition insert_suffix :: string where
  "insert_suffix = [CHR 0x22] @ '')'' @ [NL]"

definition insert_stmt :: "string \<Rightarrow> string" where
  "insert_stmt import_path = insert_prefix @ import_path @ insert_suffix"

text \<open>The loop of \<^verbatim>\<open>pre_context_run\<close> over the import paths; the first error ends it.\<close>

fun insert_paths :: "interp \<Rightarrow> string list \<Rightarrow> pystate \<Rightarrow> pyexn option \<times> pystate" where
  "insert_paths I [] st = (None, st)"
| "insert_paths I (import_path # rest) st =
     (case exec_str I (insert_stmt import_path) st of
        (Some e, st') \<Rightarrow> (Some e, st')
      | (None, st') \<Rightarrow> insert_paths I rest st')"

text \<open>\<^verbatim>\<open>import_pathes\<close> defaults to \<^verbatim>\<open>None\<close>; \<^verbatim>\<open>if import_pathes:\<close> also skips the empty list.\<close>

definition pre_context_run :: "interp \<Rightarrow> string list option \<Rightarrow> pystate \<Rightarrow> pyexn option \<times> pystate" where
  "pre_context_run I import_pathes st =
     (case exec_str I (''import sys'' @ [NL]) st of
        (Some e, st1) \<Rightarrow> (Some e, st1)
      | (None, st1) \<Rightarrow>
          (case import_pathes of
             None \<Rightarrow> (None, st1)
           | Some ps \<Rightarrow> if ps \<noteq> [] then insert_paths I ps st1 else (None, st1)))"

subsection \<open>The scanner\<close>

text \<open>
  \<^verbatim>\<open>re.finditer("`[^`]*`", l)\<close>: the spans \<open>(start, end)\<close> of the matches, left to right and
  not overlapping. A match opens at the first marker at or after the end of the previous
  match and closes at the next marker; \<open>scan i opn cs\<close> reads the rest \<open>cs\<close> of the
  line from index \<open>i\<close>, where \<open>opn\<close> is the index of the marker that is open, if any. A
  marker still open at the end of the line gives no match.
\<close>

fun scan :: "nat \<Rightarrow> nat option \<Rightarrow> string \<Rightarrow> (nat \<times> nat) list" where
  "scan i opn [] = []"
| "scan i None (c # cs) =
     (if c = marker then scan (Suc i) (Some i) cs else scan (Suc i) None cs)"
| "scan i (Some a) (c # cs) =
     (if c = marker then (a, Suc i) # scan (Suc i) None cs else scan (Suc i) (Some a) cs)"

definition finditer :: "string \<Rightarrow> (nat \<times> nat) list" where
  "finditer l = scan 0 None l"

text \<open>
  The loop over the matches in \<^verbatim>\<open>parse\<close>, with its variables \<open>ans\<close> and \<open>pos\<close>.
  \<^verbatim>\<open>i.group()[1:-1]\<close> is \<open>l[start+1:end-1]\<close>; the result of \<^verbatim>\<open>exec_inline\<close> is a string,
  so \<^verbatim>\<open>not res\<close> holds exactly for the empty string.
\<close>

fun inline_loop ::
  "interp \<Rightarrow> string \<Rightarrow> (nat \<times> nat) list \<Rightarrow> string \<Rightarrow> nat \<Rightarrow> pystate \<Rightarrow> (pyexn + string \<times> nat) \<times> pystate"
where
  "inline_loop I l [] ans pos st = (Inr (ans, pos), st)"
| "inline_loop I l ((start, end) # ms) ans pos st =
     (case exec_inline I (slice l (Suc start) (end - 1)) st of
        (Inl e, st') \<Rightarrow> (Inl e, st')
      | (Inr res, st') \<Rightarrow>
          (let res' = (if res = [] then [] else res)
           in inline_loop I l ms (ans @ slice l pos start @ res') end st'))"

text \<open>\<^verbatim>\<open>add_space\<close>, local to \<^verbatim>\<open>parse\<close>; \<^verbatim>\<open>"".rjust(n)\<close> is \<open>n\<close> spaces.\<close>

definition add_space :: "string \<Rightarrow> nat \<Rightarrow> string" where
  "add_space s ind =
     fold (\<lambda>i ans. if strip i = [] then ans else ans @ replicate ind space @ i @ [NL])
       (split_nl s) []"

datatype scan_state = Hdl | Block

record pstate =
  state :: scan_state
  py_block_snippet :: string
  indentation :: nat
  fp_out :: string
  py :: pystate

abbreviation fence :: string where
  "fence \<equiv> [marker, marker, marker]"

text \<open>One iteration of \<^verbatim>\<open>for l in fp\<close>. \<open>fp_out\<close> is the text written so far.\<close>

definition parse_line :: "interp \<Rightarrow> string \<Rightarrow> pstate \<Rightarrow> pyexn option \<times> pstate" where
  "parse_line I l ps =
     (case state ps of
        Hdl \<Rightarrow>
          if startswith (strip l) fence then
            (None, ps\<lparr>state := Block, indentation := length l - length (lstrip l)\<rparr>)
          else if marker \<in> set l then
            (case inline_loop I l (finditer l) [] 0 (py ps) of
               (Inl e, st') \<Rightarrow> (Some e, ps\<lparr>py := st'\<rparr>)
             | (Inr (ans, pos), st') \<Rightarrow>
                 (let ans' = ans @ drop pos l
                  in if strip ans' \<noteq> [] then (None, ps\<lparr>fp_out := fp_out ps @ ans', py := st'\<rparr>)
                     else (None, ps\<lparr>py := st'\<rparr>)))
          else (None, ps\<lparr>fp_out := fp_out ps @ l\<rparr>)
      | Block \<Rightarrow>
          if startswith (strip l) fence then
            (case exec_block I (py_block_snippet ps) (py ps) of
               (Inl e, st') \<Rightarrow> (Some e, ps\<lparr>py := st'\<rparr>)
             | (Inr res, st') \<Rightarrow>
                 (let res' = (if res = [] then [] else res)
                  in (None, ps\<lparr>fp_out := fp_out ps @ add_space res' (indentation ps),
                              py_block_snippet := [], indentation := 0, state := Hdl,
                              py := st'\<rparr>)))
          else (None, ps\<lparr>py_block_snippet := py_block_snippet ps @ drop (indentation ps) l\<rparr>))"

text \<open>The \<^verbatim>\<open>for\<close> loop: an error of a line ends it and leaves the state of that moment.\<close>

fun parse_loop :: "interp \<Rightarrow> string list \<Rightarrow> pstate \<Rightarrow> pyexn option \<times> pstate" where
  "parse_loop I [] ps = (None, ps)"
| "parse_loop I (l # ls) ps =
     (case parse_line I l ps of
        (Some e, ps') \<Rightarrow> (Some e, ps')
      | (None, ps') \<Rightarrow> parse_loop I ls ps')"

definition init_pstate :: "string \<Rightarrow> pystate \<Rightarrow> pstate" where
  "init_pstate out st =
     \<lparr>state = Hdl, py_block_snippet = [], indentation = 0, fp_out = out, py = st\<rparr>"

definition unclosed_msg :: string where
  "unclosed_msg = ''There exists block Python code that is not closed!''"

text \<open>
  \<^verbatim>\<open>parse(fp, fp_out, import_pathes)\<close>: the error raised, if any, the text in \<open>fp_out\<close>
  afterwards, and the process state afterwards. \<^verbatim>\<open>global_dict = {}\<close> is reached only
  when the loop has ended without an error.
\<close>

definition parse ::
  "interp \<Rightarrow> string list \<Rightarrow> string \<Rightarrow> string list option \<Rightarrow> pystate \<Rightarrow> pyexn option \<times> string \<times> pystate"
where
  "parse I fp out import_pathes st =
     (case pre_context_run I import_pathes st of
        (Some e, st1) \<Rightarrow> (Some e, out, st1)
      | (None, st1) \<Rightarrow>
          (case parse_loop I fp (init_pstate out st1) of
             (Some e, ps) \<Rightarrow> (Some e, fp_out ps, py ps)
           | (None, ps) \<Rightarrow>
               (let st2 = (py ps)\<lparr>global_dict := Map.empty\<rparr>
                in if state ps = Block then (Some (SyntaxError unclosed_msg), fp_out ps, st2)
                   else (None, fp_out ps, st2))))"

subsection \<open>A small interpreter\<close>

text \<open>
  What CPython does on a handful of snippets, as a table: enough to run the program on
  concrete documents. \<open>demo_print\<close> is \<^verbatim>\<open>print\<close>: it writes to the stream \<^verbatim>\<open>sys.stdout\<close>
  refers to at that moment. Only the names the snippets bind are tracked in
  \<open>global_dict\<close>.
\<close>

definition demo_print :: "string \<Rightarrow> pystate \<Rightarrow> pyexn option \<times> pystate" where
  "demo_print txt st =
     (let h = sys_stdout st
      in if is_closed (streams st h) then (Some (ValueError ''I/O operation on closed file''), st)
         else (None, st\<lparr>streams := (streams st)(h := (streams st h)\<lparr>buf := buf (streams st h) @ txt\<rparr>)\<rparr>))"

definition sys_module :: pyval where
  "sys_module = PyOther ''<module sys (built-in)>'' True"

text \<open>A path that reads back as itself between double quotes in Python source.\<close>

definition plain_path :: "string \<Rightarrow> bool" where
  "plain_path p =
     (\<forall>c \<in> set p. c \<noteq> CHR 0x22 \<and> c \<noteq> CHR 0x5C \<and> c \<noteq> NL \<and> c \<noteq> CHR 0x0D \<and> c \<noteq> CHR 0x00)"

text \<open>The path of a statement \<^verbatim>\<open>sys.path.insert(0, "p")\<close> with a plain \<open>p\<close>, if it is one.\<close>

definition insert_arg :: "string \<Rightarrow> string option" where
  "insert_arg src =
     (let n = length insert_prefix; m = length insert_suffix;
          p = take (length src - n - m) (drop n src)
      in if n + m \<le> length src \<and> take n src = insert_prefix
            \<and> drop (length src - m) src = insert_suffix \<and> plain_path p
         then Some p else None)"

definition demo_expressions :: "string list" where
  "demo_expressions =
     [''0'', ''None'', ''False'', [CHR 0x22, CHR 0x22], ''x'', ''1/0'', ''1+1'', ''print(1)'']"

definition demo_statements :: "string list" where
  "demo_statements =
     [''import sys'' @ [NL], ''x = 1'', ''x = 1/0'', ''1/0'' @ [NL], ''print(1)'' @ [NL],
      ''print('' @ [CHR 0x22] @ ''  x'' @ [CHR 0x22] @ '')'' @ [NL], []]"

definition demo_compile :: "string \<Rightarrow> mode \<Rightarrow> pyexn option" where
  "demo_compile src m =
     (case m of
        EvalMode \<Rightarrow>
          if src \<in> set demo_expressions then None else Some (SyntaxError ''invalid syntax'')
      | ExecMode \<Rightarrow>
          if src \<in> set demo_statements \<or> src \<in> set demo_expressions \<or> insert_arg src \<noteq> None
          then None else Some (SyntaxError ''invalid syntax''))"

definition demo_eval :: "string \<Rightarrow> pystate \<Rightarrow> (pyexn + pyval) \<times> pystate" where
  "demo_eval src st =
     (if src = ''0'' then (Inr (PyInt 0), st)
      else if src = ''None'' then (Inr PyNone, st)
      else if src = ''False'' then (Inr (PyBool False), st)
      else if src = [CHR 0x22, CHR 0x22] then (Inr (PyStr []), st)
      else if src = ''1+1'' then (Inr (PyInt 2), st)
      else if src = ''x'' then
        (case global_dict st ''x'' of
           None \<Rightarrow> (Inl (NameError ''name x is not defined''), st)
         | Some v \<Rightarrow> (Inr v, st))
      else if src = ''1/0'' then (Inl (ZeroDivisionError ''division by zero''), st)
      else if src = ''print(1)'' then
        (case demo_print (''1'' @ [NL]) st of
           (Some e, st') \<Rightarrow> (Inl e, st')
         | (None, st') \<Rightarrow> (Inr PyNone, st'))
      else (Inl (OtherError ''not in the table''), st))"

definition demo_exec :: "string \<Rightarrow> pystate \<Rightarrow> pyexn option \<times> pystate" where
  "demo_exec src st =
     (if src = ''import sys'' @ [NL] then
        (None, st\<lparr>global_dict := (global_dict st)(''sys'' \<mapsto> sys_module)\<rparr>)
      else if src = ''x = 1'' then
        (None, st\<lparr>global_dict := (global_dict st)(''x'' \<mapsto> PyInt 1)\<rparr>)
      else if src = ''x = 1/0'' \<or> src = ''1/0'' @ [NL] \<or> src = ''1/0'' then
        (Some (ZeroDivisionError ''division by zero''), st)
      else if src = ''print(1)'' @ [NL] \<or> src = ''print(1)'' then demo_print (''1'' @ [NL]) st
      else if src = ''print('' @ [CHR 0x22] @ ''  x'' @ [CHR 0x22] @ '')'' @ [NL] then
        demo_print (''  x'' @ [NL]) st
      else if src = [] then (None, st)
      else
        (case insert_arg src of
           Some p \<Rightarrow>
             if global_dict st ''sys'' = Some sys_module
             then (None, st\<lparr>sys_path := p # sys_path st\<rparr>)
             else (Some (NameError ''name sys is not defined''), st)
         | None \<Rightarrow> (Some (OtherError ''not in the table''), st)))"

definition demo :: interp where
  "demo = \<lparr>py_compile = demo_compile, py_eval = demo_eval, py_exec = demo_exec\<rparr>"

text \<open>A fresh process: nothing bound, \<^verbatim>\<open>sys.stdout\<close> the terminal (reference 0).\<close>

definition st0 :: pystate where
  "st0 = \<lparr>global_dict = Map.empty, sys_stdout = 0,
          streams = (\<lambda>_. \<lparr>buf = [], is_closed = False\<rparr>), next_ref = 1,
          sys_path = [''/usr/lib/python3'']\<rparr>"

subsection \<open>What the set-up code needs of the interpreter\<close>

text \<open>
  \<^verbatim>\<open>pre_context_run\<close> hands generated code to the interpreter. What CPython does with it:
  \<^verbatim>\<open>import sys\<close> binds \<^verbatim>\<open>sys\<close> and leaves \<^verbatim>\<open>sys.path\<close> alone, and, where \<^verbatim>\<open>sys\<close> is bound,
  \<^verbatim>\<open>sys.path.insert(0, "p")\<close> with a plain \<open>p\<close> puts \<open>p\<close> in front of \<^verbatim>\<open>sys.path\<close>.
\<close>

definition setup_semantics :: "interp \<Rightarrow> bool" where
  "setup_semantics I \<longleftrightarrow>
     (\<forall>st. \<exists>st'. exec_str I (''import sys'' @ [NL]) st = (None, st')
        \<and> sys_path st' = sys_path st \<and> global_dict st' ''sys'' = Some sys_module) \<and>
     (\<forall>p st. plain_path p \<longrightarrow> global_dict st ''sys'' = Some sys_module \<longrightarrow>
        (\<exists>st'. exec_str I (insert_stmt p) st = (None, st')
           \<and> sys_path st' = p # sys_path st \<and> global_dict st' ''sys'' = Some sys_module))"

section \<open>Properties\<close>

lemmas demo_defs =
  demo_def demo_compile_def demo_eval_def demo_exec_def demo_print_def demo_expressions_def
  demo_statements_def insert_arg_def insert_prefix_def insert_suffix_def insert_stmt_def
  plain_path_def sys_module_def st0_def

lemmas exec_defs =
  exec_block_def exec_inline_def capture_def exec_str_def new_StringIO_def getvalue_def
  close_stream_def Let_def

subsection \<open>Output redirection\<close>

lemma capture_restores:
  "capture run st = (Inr res, st') \<Longrightarrow> sys_stdout st' = sys_stdout st"
  by (auto simp: capture_def new_StringIO_def close_stream_def Let_def
           split: prod.splits option.splits sum.splits)

text \<open>
  C1, as the code has it: when a block body, or an inline fragment run in statement mode,
  returns its captured text, \<^verbatim>\<open>sys.stdout\<close> is again the stream it was before the call.
  (Nothing is promised here for the call that raises.)
\<close>

theorem stdout_restored_on_return:
  "(exec_block I src st = (Inr res, st') \<longrightarrow> sys_stdout st' = sys_stdout st) \<and>
   (py_compile I src EvalMode = Some (SyntaxError m) \<longrightarrow>
      exec_inline I src st = (Inr res, st') \<longrightarrow> sys_stdout st' = sys_stdout st)"
  by (auto simp: exec_block_def exec_inline_def dest: capture_restores split: option.splits)

text \<open>C1, witness: the block \<^verbatim>\<open>print(1)\<close> and the inline statement \<^verbatim>\<open>x = 1\<close>.\<close>

theorem stdout_restored_on_return_witness:
  "exec_block demo (''print(1)'' @ [NL]) st0 =
     (Inr (''1'' @ [NL]), snd (exec_block demo (''print(1)'' @ [NL]) st0)) \<and>
   sys_stdout (snd (exec_block demo (''print(1)'' @ [NL]) st0)) = sys_stdout st0 \<and>
   py_compile demo ''x = 1'' EvalMode = Some (SyntaxError ''invalid syntax'') \<and>
   exec_inline demo ''x = 1'' st0 = (Inr [], snd (exec_inline demo ''x = 1'' st0)) \<and>
   sys_stdout (snd (exec_inline demo ''x = 1'' st0)) = sys_stdout st0"
  using
    stdout_restored_on_return [of demo "''print(1)'' @ [NL]" st0 "''1'' @ [NL]"
      "snd (exec_block demo (''print(1)'' @ [NL]) st0)" "''invalid syntax''"]
    stdout_restored_on_return [of demo "''x = 1''" st0 "[]"
      "snd (exec_inline demo ''x = 1'' st0)" "''invalid syntax''"]
  by (simp add: demo_defs exec_defs)

text \<open>
  C1 as stated fails: the block body \<^verbatim>\<open>1/0\<close> and the inline statement \<^verbatim>\<open>x = 1/0\<close>
  raise \<^verbatim>\<open>ZeroDivisionError\<close>, and afterwards \<^verbatim>\<open>sys.stdout\<close> is the capture buffer
  (reference 1), not the stream it was before the call (reference 0).
\<close>

theorem stdout_left_redirected_on_error:
  "fst (exec_block demo (''1/0'' @ [NL]) st0) = Inl (ZeroDivisionError ''division by zero'') \<and>
   sys_stdout st0 = 0 \<and>
   sys_stdout (snd (exec_block demo (''1/0'' @ [NL]) st0)) = 1 \<and>
   demo_compile ''x = 1/0'' EvalMode = Some (SyntaxError ''invalid syntax'') \<and>
   fst (exec_inline demo ''x = 1/0'' st0) = Inl (ZeroDivisionError ''division by zero'') \<and>
   sys_stdout (snd (exec_inline demo ''x = 1/0'' st0)) = 1"
  by (simp add: demo_defs exec_defs)

text \<open>
  C9: a fragment that compiles as an expression is evaluated in the state \<^verbatim>\<open>exec_inline\<close>
  was called in (no buffer is allocated and \<^verbatim>\<open>sys.stdout\<close> is not reassigned before the
  evaluation), and the text returned is \<^verbatim>\<open>str\<close> of the value and nothing else.
\<close>

theorem expression_not_captured:
  "py_compile I src EvalMode = None \<Longrightarrow>
   exec_inline I src st =
     (case py_eval I src st of
        (Inl e, st') \<Rightarrow> (Inl e, st')
      | (Inr v, st') \<Rightarrow> (Inr (py_str v), st'))"
  by (simp add: exec_inline_def)

text \<open>
  C9, witness: the fragment \<^verbatim>\<open>print(1)\<close> splices \<^verbatim>\<open>None\<close>; its printed text is in the
  stream \<^verbatim>\<open>sys.stdout\<close> referred to before the call, and no buffer was allocated.
\<close>

theorem expression_not_captured_witness:
  "py_compile demo ''print(1)'' EvalMode = None \<and>
   fst (exec_inline demo ''print(1)'' st0) = Inr ''None'' \<and>
   sys_stdout (snd (exec_inline demo ''print(1)'' st0)) = 0 \<and>
   buf (streams (snd (exec_inline demo ''print(1)'' st0)) 0) = ''1'' @ [NL] \<and>
   next_ref (snd (exec_inline demo ''print(1)'' st0)) = next_ref st0"
  using expression_not_captured [of demo "''print(1)''" st0]
  by (simp add: demo_defs)

subsection \<open>Search paths\<close>

lemma insert_arg_stmt: "plain_path p \<Longrightarrow> insert_arg (insert_stmt p) = Some p"
  by (simp add: insert_arg_def insert_stmt_def insert_prefix_def insert_suffix_def)

lemma demo_setup_semantics: "setup_semantics demo"
  unfolding setup_semantics_def
proof (intro conjI allI impI)
  fix st :: pystate
  show "\<exists>st'. exec_str demo (''import sys'' @ [NL]) st = (None, st')
        \<and> sys_path st' = sys_path st \<and> global_dict st' ''sys'' = Some sys_module"
    by (simp add: exec_str_def demo_def demo_compile_def demo_statements_def demo_exec_def)
next
  fix p and st :: pystate
  assume p: "plain_path p" and s: "global_dict st ''sys'' = Some sys_module"
  have c: "demo_compile (insert_stmt p) ExecMode = None"
    using insert_arg_stmt [OF p] by (simp add: demo_compile_def)
  have e: "demo_exec (insert_stmt p) st = (None, st\<lparr>sys_path := p # sys_path st\<rparr>)"
    using insert_arg_stmt [OF p] s
    by (simp add: demo_exec_def) (simp add: insert_stmt_def insert_prefix_def)
  show "\<exists>st'. exec_str demo (insert_stmt p) st = (None, st')
           \<and> sys_path st' = p # sys_path st \<and> global_dict st' ''sys'' = Some sys_module"
    using c e s by (simp add: exec_str_def demo_def)
qed

lemma insert_paths_rev:
  assumes "setup_semantics I"
  shows "list_all plain_path ps \<Longrightarrow> global_dict st ''sys'' = Some sys_module \<Longrightarrow>
    \<exists>st'. insert_paths I ps st = (None, st') \<and> sys_path st' = rev ps @ sys_path st
       \<and> global_dict st' ''sys'' = Some sys_module"
proof (induction ps arbitrary: st)
  case Nil
  then show ?case by simp
next
  case (Cons p ps)
  from Cons.prems have pp: "plain_path p" and rest: "list_all plain_path ps" by simp_all
  from assms pp Cons.prems(2) obtain st1 where
    st1: "exec_str I (insert_stmt p) st = (None, st1)" "sys_path st1 = p # sys_path st"
         "global_dict st1 ''sys'' = Some sys_module"
    unfolding setup_semantics_def by blast
  from Cons.IH [OF rest st1(3)] obtain st' where
    "insert_paths I ps st1 = (None, st')" "sys_path st' = rev ps @ sys_path st1"
    "global_dict st' ''sys'' = Some sys_module" by blast
  with st1 show ?case by simp
qed

text \<open>
  C4, as the code has it: for every sequence of plain search paths (paths with no double
  quote, backslash, newline, carriage return or NUL character, which read back as
  themselves between the quotes of the generated statement), with an interpreter that runs
  the set-up code as CPython does, each path is inserted at position 0 in turn: the set-up
  returns, and afterwards the given paths stand in front of the entries \<^verbatim>\<open>sys.path\<close> had,
  in the reverse of the order given, so the last path given has the highest priority.
  (Nothing is promised here for a path that is not plain.)
\<close>

theorem paths_prepended_in_turn:
  assumes "setup_semantics I" and "list_all plain_path ps"
  shows "\<exists>st'. pre_context_run I (Some ps) st = (None, st') \<and> sys_path st' = rev ps @ sys_path st"
proof -
  from assms(1) obtain st1 where
    st1: "exec_str I (''import sys'' @ [NL]) st = (None, st1)" "sys_path st1 = sys_path st"
         "global_dict st1 ''sys'' = Some sys_module"
    unfolding setup_semantics_def by blast
  from insert_paths_rev [OF assms(1) assms(2) st1(3)] obtain st' where
    st': "insert_paths I ps st1 = (None, st')" "sys_path st' = rev ps @ sys_path st1" by blast
  show ?thesis
  proof (cases "ps = []")
    case True
    with st1 show ?thesis by (simp add: pre_context_run_def)
  next
    case False
    with st1 st' show ?thesis by (simp add: pre_context_run_def)
  qed
qed

text \<open>C4, witness: the paths \<^verbatim>\<open>a\<close>, \<^verbatim>\<open>b\<close> with the table interpreter.\<close>

theorem paths_prepended_in_turn_witness:
  "setup_semantics demo \<and> list_all plain_path [''a'', ''b''] \<and>
   fst (pre_context_run demo (Some [''a'', ''b'']) st0) = None \<and>
   sys_path (snd (pre_context_run demo (Some [''a'', ''b'']) st0)) = rev [''a'', ''b''] @ sys_path st0"
  using paths_prepended_in_turn [OF demo_setup_semantics, of "[''a'', ''b'']" st0]
    demo_setup_semantics
  by (auto simp: plain_path_def)

text \<open>
  C4 as stated fails: given the paths \<^verbatim>\<open>a\<close>, \<^verbatim>\<open>b\<close>, the search order afterwards starts
  \<^verbatim>\<open>b\<close>, \<^verbatim>\<open>a\<close>: the first path given is not the first that is searched.
\<close>

theorem first_path_not_first:
  "sys_path st0 = [''/usr/lib/python3''] \<and>
   fst (pre_context_run demo (Some [''a'', ''b'']) st0) = None \<and>
   sys_path (snd (pre_context_run demo (Some [''a'', ''b'']) st0)) =
     [''b'', ''a'', ''/usr/lib/python3''] \<and>
   hd (sys_path (snd (pre_context_run demo (Some [''a'', ''b'']) st0))) \<noteq> ''a''"
  by (simp add: pre_context_run_def exec_str_def demo_defs)

subsection \<open>Inline expressions\<close>

lemma exec_inline_expression:
  "py_compile I src EvalMode = None \<Longrightarrow> py_eval I src st = (Inr v, st') \<Longrightarrow>
   exec_inline I src st = (Inr (py_str v), st')"
  by (simp add: exec_inline_def)

text \<open>
  C3, as the code has it: for a fragment evaluated in expression mode, the text spliced in
  place of the fragment is \<^verbatim>\<open>str\<close> of the value, whatever its truth value; it is the empty
  string when that text is empty (as for the empty string).
\<close>

theorem expression_splices_str:
  assumes "py_compile I (slice l (Suc start) (end - 1)) EvalMode = None"
    and "py_eval I (slice l (Suc start) (end - 1)) st = (Inr v, st')"
  shows "inline_loop I l ((start, end) # ms) ans pos st =
           inline_loop I l ms (ans @ slice l pos start @ py_str v) end st'"
  using exec_inline_expression [OF assms] by simp

text \<open>C3, witness: the fragment \<^verbatim>\<open>""\<close>, whose value is the empty string, splices nothing.\<close>

theorem expression_splices_str_witness:
  "py_compile demo (slice [marker, CHR 0x22, CHR 0x22, marker, NL] (Suc 0) (4 - 1)) EvalMode = None \<and>
   py_eval demo (slice [marker, CHR 0x22, CHR 0x22, marker, NL] (Suc 0) (4 - 1)) st0 =
     (Inr (PyStr []), st0) \<and>
   inline_loop demo [marker, CHR 0x22, CHR 0x22, marker, NL] [(0, 4)] [] 0 st0 = (Inr ([], 4), st0)"
  using expression_splices_str [of demo "[marker, CHR 0x22, CHR 0x22, marker, NL]" 0 4 st0
      "PyStr []" st0 "[]" "[]" 0]
  by (simp add: demo_defs slice_def)

lemmas parse_defs =
  parse_def pre_context_run_def init_pstate_def parse_line_def finditer_def strip_def
  lstrip_def rstrip_def is_space_def startswith_def slice_def unclosed_msg_def add_space_def

lemma digits_small: "digits 0 = ''0''" "digits (Suc 0) = ''1''" "digits 2 = ''2''"
  by code_simp+

text \<open>
  C3 as stated fails: the value of the fragment \<^verbatim>\<open>0\<close> is falsy, and the text spliced is
  \<^verbatim>\<open>0\<close>, not the empty string: the line of the fragment alone comes out as \<^verbatim>\<open>0\<close>.
\<close>

theorem falsy_zero_spliced_as_text:
  "\<not> py_truthy (PyInt 0) \<and>
   py_compile demo ''0'' EvalMode = None \<and>
   py_eval demo ''0'' st0 = (Inr (PyInt 0), st0) \<and>
   fst (exec_inline demo ''0'' st0) = Inr ''0'' \<and>
   fst (snd (parse demo [[marker, CHR ''0'', marker, NL]] [] None st0)) = [CHR ''0'', NL]"
  by (simp add: demo_defs exec_defs parse_defs digits_small)

subsection \<open>The scanner\<close>

lemma in_dropWhile: "x \<in> set xs \<Longrightarrow> \<not> P x \<Longrightarrow> x \<in> set (dropWhile P xs)"
  by (induction xs) auto

lemma in_strip: "c \<in> set s \<Longrightarrow> \<not> is_space c \<Longrightarrow> c \<in> set (strip s)"
proof -
  assume c: "c \<in> set s" and n: "\<not> is_space c"
  have "c \<in> set (lstrip s)" using c n by (simp add: lstrip_def in_dropWhile)
  then have "c \<in> set (rev (lstrip s))" by simp
  then have "c \<in> set (dropWhile is_space (rev (lstrip s)))" using n by (rule in_dropWhile)
  then show ?thesis by (simp add: strip_def rstrip_def)
qed

lemma set_strip: "set (strip s) \<subseteq> set s"
proof -
  have "set (strip s) \<subseteq> set (lstrip s)"
    using set_dropWhileD [of _ is_space "rev (lstrip s)"] by (auto simp: strip_def rstrip_def)
  also have "\<dots> \<subseteq> set s"
    using set_dropWhileD [of _ is_space s] by (auto simp: lstrip_def)
  finally show ?thesis .
qed

lemma marker_not_space: "\<not> is_space marker"
  by (simp add: is_space_def)

lemma strip_with_marker: "marker \<in> set s \<Longrightarrow> strip s \<noteq> []"
  using in_strip [OF _ marker_not_space, of s] by auto

lemma fence_has_marker: "startswith (strip l) fence \<Longrightarrow> marker \<in> set l"
proof -
  assume "startswith (strip l) fence"
  then have "take (length fence) (strip l) = fence" by (simp only: startswith_def)
  then have "marker \<in> set (take (length fence) (strip l))" by simp
  then have "marker \<in> set (strip l)" by (rule in_set_takeD)
  then show ?thesis using set_strip by blast
qed

lemma parse_line_plain:
  "state ps = Hdl \<Longrightarrow> marker \<notin> set l \<Longrightarrow> parse_line I l ps = (None, ps\<lparr>fp_out := fp_out ps @ l\<rparr>)"
  using fence_has_marker [of l] by (auto simp: parse_line_def)

lemma parse_loop_plain:
  "state ps = Hdl \<Longrightarrow> \<forall>l \<in> set fp. marker \<notin> set l \<Longrightarrow>
   parse_loop I fp ps = (None, ps\<lparr>fp_out := fp_out ps @ concat fp\<rparr>)"
proof (induction fp arbitrary: ps)
  case Nil
  then show ?case by simp
next
  case (Cons l fp)
  have "parse_line I l ps = (None, ps\<lparr>fp_out := fp_out ps @ l\<rparr>)"
    using Cons.prems by (simp add: parse_line_plain)
  moreover have "parse_loop I fp (ps\<lparr>fp_out := fp_out ps @ l\<rparr>) =
      (None, ps\<lparr>fp_out := fp_out ps @ l @ concat fp\<rparr>)"
    using Cons.IH [of "ps\<lparr>fp_out := fp_out ps @ l\<rparr>"] Cons.prems by simp
  ultimately show ?case by simp
qed

text \<open>
  C7: when the set-up of the context returns, a document none of whose lines contains the
  marker is written out as it is, line after line, and the pass returns normally.
\<close>

theorem no_marker_identity:
  assumes "pre_context_run I import_pathes st = (None, st1)"
    and "\<forall>l \<in> set fp. marker \<notin> set l"
  shows "parse I fp out import_pathes st = (None, out @ concat fp, st1\<lparr>global_dict := Map.empty\<rparr>)"
  using assms(1) parse_loop_plain [of "init_pstate out st1" fp I] assms(2)
  by (simp add: parse_def init_pstate_def)

text \<open>C7, witness: two lines of Verilog, no import paths.\<close>

theorem no_marker_identity_witness:
  "pre_context_run demo None st0 = (None, st0\<lparr>global_dict := [''sys'' \<mapsto> sys_module]\<rparr>) \<and>
   marker \<notin> set (''wire a;'' @ [NL]) \<and> marker \<notin> set (''  assign a = 1;'' @ [NL]) \<and>
   parse demo [''wire a;'' @ [NL], ''  assign a = 1;'' @ [NL]] [] None st0 =
     (None, ''wire a;'' @ [NL] @ ''  assign a = 1;'' @ [NL], st0\<lparr>global_dict := Map.empty\<rparr>)"
proof -
  have p: "pre_context_run demo None st0 = (None, st0\<lparr>global_dict := [''sys'' \<mapsto> sys_module]\<rparr>)"
    by (simp add: pre_context_run_def exec_str_def demo_def demo_compile_def demo_statements_def
        demo_exec_def st0_def)
  have m: "\<forall>l \<in> set [''wire a;'' @ [NL], ''  assign a = 1;'' @ [NL]]. marker \<notin> set l"
    by simp
  show ?thesis
    using no_marker_identity [OF p m, of "[]"] p m by simp
qed

lemma parse_loop_append:
  "parse_loop I (xs @ ys) ps =
     (case parse_loop I xs ps of
        (Some e, ps') \<Rightarrow> (Some e, ps')
      | (None, ps') \<Rightarrow> parse_loop I ys ps')"
  by (induction xs arbitrary: ps) (auto split: prod.splits option.splits)

lemma parse_line_open:
  "state ps = Hdl \<Longrightarrow> startswith (strip l) fence \<Longrightarrow>
   parse_line I l ps = (None, ps\<lparr>state := Block, indentation := length l - length (lstrip l)\<rparr>)"
  by (simp add: parse_line_def)

lemma parse_line_body:
  "state ps = Block \<Longrightarrow> \<not> startswith (strip l) fence \<Longrightarrow>
   parse_line I l ps = (None, ps\<lparr>py_block_snippet := py_block_snippet ps @ drop (indentation ps) l\<rparr>)"
  by (simp add: parse_line_def)

lemma parse_loop_body:
  "state ps = Block \<Longrightarrow> \<forall>b \<in> set body. \<not> startswith (strip b) fence \<Longrightarrow>
   parse_loop I body ps =
     (None, ps\<lparr>py_block_snippet :=
                 py_block_snippet ps @ concat (map (drop (indentation ps)) body)\<rparr>)"
proof (induction body arbitrary: ps)
  case Nil
  then show ?case by simp
next
  case (Cons b body)
  let ?ps = "ps\<lparr>py_block_snippet := py_block_snippet ps @ drop (indentation ps) b\<rparr>"
  have "parse_line I b ps = (None, ?ps)"
    using Cons.prems by (simp add: parse_line_body)
  moreover have "parse_loop I body ?ps =
      (None, ?ps\<lparr>py_block_snippet :=
                 py_block_snippet ?ps @ concat (map (drop (indentation ?ps)) body)\<rparr>)"
    using Cons.prems by (intro Cons.IH) simp_all
  ultimately show ?case by simp
qed

text \<open>
  C6: a document whose scan reaches a fence in the plain state, with no closing fence in the
  lines after it, raises the \<^verbatim>\<open>SyntaxError\<close> of the unclosed block, and the output is what
  had been written before the fence: nothing for the fence, the body or its result.
\<close>

theorem unclosed_block_raises:
  assumes "pre_context_run I import_pathes st = (None, st1)"
    and "parse_loop I pre (init_pstate out st1) = (None, ps1)"
    and "state ps1 = Hdl"
    and "startswith (strip opn) fence"
    and "\<forall>b \<in> set body. \<not> startswith (strip b) fence"
  shows "parse I (pre @ opn # body) out import_pathes st =
           (Some (SyntaxError unclosed_msg), fp_out ps1, (py ps1)\<lparr>global_dict := Map.empty\<rparr>)"
proof -
  let ?ps2 = "ps1\<lparr>state := Block, indentation := length opn - length (lstrip opn)\<rparr>"
  have o: "parse_line I opn ps1 = (None, ?ps2)"
    using assms(3,4) by (rule parse_line_open)
  have b: "parse_loop I body ?ps2 =
      (None, ?ps2\<lparr>py_block_snippet :=
                 py_block_snippet ?ps2 @ concat (map (drop (indentation ?ps2)) body)\<rparr>)"
    using assms(5) by (intro parse_loop_body) simp_all
  have "parse_loop I (pre @ opn # body) (init_pstate out st1) =
      (None, ?ps2\<lparr>py_block_snippet :=
                 py_block_snippet ?ps2 @ concat (map (drop (indentation ?ps2)) body)\<rparr>)"
    using assms(2) o b by (simp add: parse_loop_append)
  then show ?thesis using assms(1) by (simp add: parse_def)
qed


text \<open>C6, witness: a plain line, a fence, one body line, end of input.\<close>

theorem unclosed_block_raises_witness:
  "pre_context_run demo None st0 = (None, st0\<lparr>global_dict := [''sys'' \<mapsto> sys_module]\<rparr>) \<and>
   parse_loop demo [''a'' @ [NL]] (init_pstate [] (st0\<lparr>global_dict := [''sys'' \<mapsto> sys_module]\<rparr>)) =
     (None, (init_pstate [] (st0\<lparr>global_dict := [''sys'' \<mapsto> sys_module]\<rparr>))\<lparr>fp_out := ''a'' @ [NL]\<rparr>) \<and>
   startswith (strip (fence @ [NL])) fence \<and>
   \<not> startswith (strip (''print(1)'' @ [NL])) fence \<and>
   parse demo ([''a'' @ [NL]] @ (fence @ [NL]) # [''print(1)'' @ [NL]]) [] None st0 =
     (Some (SyntaxError unclosed_msg), ''a'' @ [NL], st0\<lparr>global_dict := Map.empty\<rparr>)"
proof -
  let ?st1 = "st0\<lparr>global_dict := [''sys'' \<mapsto> sys_module]\<rparr>"
  let ?ps1 = "(init_pstate [] ?st1)\<lparr>fp_out := ''a'' @ [NL]\<rparr>"
  have p: "pre_context_run demo None st0 = (None, ?st1)"
    by (simp add: pre_context_run_def exec_str_def demo_def demo_compile_def demo_statements_def
        demo_exec_def st0_def)
  have l: "parse_loop demo [''a'' @ [NL]] (init_pstate [] ?st1) = (None, ?ps1)"
    by (simp add: parse_defs)
  have h: "state ?ps1 = Hdl" by (simp add: init_pstate_def)
  have f: "startswith (strip (fence @ [NL])) fence" by (simp add: parse_defs)
  have b: "\<forall>b \<in> set [''print(1)'' @ [NL]]. \<not> startswith (strip b) fence"
    by (simp add: parse_defs)
  show ?thesis
    using unclosed_block_raises [OF p l h f b] p l f b by (simp add: init_pstate_def)
qed

text \<open>
  C2, as the code has it: when the scan reaches the end of the document, whether the pass
  then returns or raises the error of the unclosed block, the context is empty afterwards.
  (Nothing is promised here for the pass a snippet's error ends.)
\<close>

theorem context_emptied_after_scan:
  assumes "pre_context_run I import_pathes st = (None, st1)"
    and "parse_loop I fp (init_pstate out st1) = (None, ps)"
  shows "global_dict (snd (snd (parse I fp out import_pathes st))) = Map.empty"
  using assms by (simp add: parse_def Let_def)

text \<open>C2, witness: a document with the one snippet \<^verbatim>\<open>x = 1\<close>.\<close>

theorem context_emptied_after_scan_witness:
  "pre_context_run demo None st0 = (None, st0\<lparr>global_dict := [''sys'' \<mapsto> sys_module]\<rparr>) \<and>
   fst (parse_loop demo [[marker] @ ''x = 1'' @ [marker, NL]]
          (init_pstate [] (st0\<lparr>global_dict := [''sys'' \<mapsto> sys_module]\<rparr>))) = None \<and>
   global_dict (snd (snd (parse demo [[marker] @ ''x = 1'' @ [marker, NL]] [] None st0))) = Map.empty"
proof -
  let ?st1 = "st0\<lparr>global_dict := [''sys'' \<mapsto> sys_module]\<rparr>"
  let ?fp = "[[marker] @ ''x = 1'' @ [marker, NL]]"
  have p: "pre_context_run demo None st0 = (None, ?st1)"
    by (simp add: pre_context_run_def exec_str_def demo_def demo_compile_def demo_statements_def
        demo_exec_def st0_def)
  have l: "fst (parse_loop demo ?fp (init_pstate [] ?st1)) = None"
    by (simp add: parse_defs demo_defs exec_defs)
  then have l': "parse_loop demo ?fp (init_pstate [] ?st1) =
      (None, snd (parse_loop demo ?fp (init_pstate [] ?st1)))"
    by (metis prod.collapse)
  show ?thesis
    using context_emptied_after_scan [OF p l'] p l by simp
qed

text \<open>
  C2 as stated fails: a pass over the lines \<^verbatim>\<open>`x = 1`\<close> and \<^verbatim>\<open>`1/0`\<close> ends with
  \<^verbatim>\<open>ZeroDivisionError\<close> and leaves \<^verbatim>\<open>x\<close> bound; a second pass in the same process over
  the line \<^verbatim>\<open>`x`\<close> then writes \<^verbatim>\<open>1\<close>.
\<close>

theorem context_kept_after_snippet_error:
  "fst (parse demo [[marker] @ ''x = 1'' @ [marker, NL], [marker] @ ''1/0'' @ [marker, NL]] [] None st0) =
     Some (ZeroDivisionError ''division by zero'') \<and>
   global_dict (snd (snd (parse demo
       [[marker] @ ''x = 1'' @ [marker, NL], [marker] @ ''1/0'' @ [marker, NL]] [] None st0))) ''x'' =
     Some (PyInt 1) \<and>
   fst (snd (parse demo [[marker, CHR ''x'', marker, NL]] [] None
     (snd (snd (parse demo
       [[marker] @ ''x = 1'' @ [marker, NL], [marker] @ ''1/0'' @ [marker, NL]] [] None st0))))) =
     [CHR ''1'', NL]"
  by (simp add: parse_defs demo_defs exec_defs digits_small)


lemma fold_add_space:
  "fold (\<lambda>i ans. if strip i = [] then ans else ans @ replicate n space @ i @ [NL]) xs acc =
   acc @ concat (map (\<lambda>i. replicate n space @ i @ [NL]) (filter (\<lambda>i. strip i \<noteq> []) xs))"
  by (induction xs arbitrary: acc) auto

lemma add_space_eq:
  "add_space s n =
   concat (map (\<lambda>i. replicate n space @ i @ [NL]) (filter (\<lambda>i. strip i \<noteq> []) (split_nl s)))"
  by (simp add: add_space_def fold_add_space)

lemma parse_line_close:
  "state ps = Block \<Longrightarrow> startswith (strip l) fence \<Longrightarrow>
   exec_block I (py_block_snippet ps) (py ps) = (Inr res, st') \<Longrightarrow>
   parse_line I l ps =
     (None, ps\<lparr>fp_out := fp_out ps @ add_space res (indentation ps),
               py_block_snippet := [], indentation := 0, state := Hdl, py := st'\<rparr>)"
  by (simp add: parse_line_def)

text \<open>
  C5, as the code has it: for a block opened by a fence with \<open>N\<close> leading whitespace
  characters, the text written when the block closes is, for each line of the captured
  output whose stripped form is not empty, \<open>N\<close> spaces, then the line as it was captured
  (its own leading whitespace kept), then a newline; the other lines are dropped.
\<close>

theorem block_output_indented:
  assumes "state ps = Hdl" and "py_block_snippet ps = []"
    and "startswith (strip opn) fence"
    and "\<forall>b \<in> set body. \<not> startswith (strip b) fence"
    and "startswith (strip cls) fence"
    and "N = length opn - length (lstrip opn)"
    and "exec_block I (concat (map (drop N) body)) (py ps) = (Inr res, st')"
  shows "fst (parse_loop I (opn # body @ [cls]) ps) = None \<and>
         fp_out (snd (parse_loop I (opn # body @ [cls]) ps)) =
           fp_out ps @ concat (map (\<lambda>i. replicate N space @ i @ [NL])
                                (filter (\<lambda>i. strip i \<noteq> []) (split_nl res)))"
proof -
  let ?ps2 = "ps\<lparr>state := Block, indentation := N\<rparr>"
  let ?ps3 = "?ps2\<lparr>py_block_snippet := concat (map (drop N) body)\<rparr>"
  have o: "parse_line I opn ps = (None, ?ps2)"
    using assms(1,3,6) by (simp add: parse_line_open)
  have b: "parse_loop I body ?ps2 = (None, ?ps3)"
    using parse_loop_body [of ?ps2 body I] assms(2,4) by simp
  have c: "parse_line I cls ?ps3 =
      (None, ?ps3\<lparr>fp_out := fp_out ?ps3 @ add_space res (indentation ?ps3),
               py_block_snippet := [], indentation := 0, state := Hdl, py := st'\<rparr>)"
    using assms(5,7) by (intro parse_line_close) simp_all
  have "parse_loop I (opn # body @ [cls]) ps =
      (None, ?ps3\<lparr>fp_out := fp_out ?ps3 @ add_space res (indentation ?ps3),
               py_block_snippet := [], indentation := 0, state := Hdl, py := st'\<rparr>)"
    using o b c by (simp add: parse_loop_append)
  then show ?thesis by (simp add: add_space_eq)
qed

text \<open>C5, witness: a block opened at indentation 2 whose body prints \<^verbatim>\<open>1\<close>.\<close>

theorem block_output_indented_witness:
  "state (init_pstate [] st0) = Hdl \<and> py_block_snippet (init_pstate [] st0) = [] \<and>
   startswith (strip ([space, space] @ fence @ [NL])) fence \<and>
   \<not> startswith (strip (''  print(1)'' @ [NL])) fence \<and>
   startswith (strip (fence @ [NL])) fence \<and>
   2 = length ([space, space] @ fence @ [NL]) - length (lstrip ([space, space] @ fence @ [NL])) \<and>
   fst (exec_block demo (concat (map (drop 2) [''  print(1)'' @ [NL]])) (py (init_pstate [] st0))) =
     Inr (''1'' @ [NL]) \<and>
   fp_out (snd (parse_loop demo
      (([space, space] @ fence @ [NL]) # [''  print(1)'' @ [NL]] @ [fence @ [NL]]) (init_pstate [] st0))) =
     fp_out (init_pstate [] st0) @
     concat (map (\<lambda>i. replicate 2 space @ i @ [NL])
               (filter (\<lambda>i. strip i \<noteq> []) (split_nl (''1'' @ [NL])))) \<and>
   fp_out (init_pstate [] st0) @
     concat (map (\<lambda>i. replicate 2 space @ i @ [NL])
               (filter (\<lambda>i. strip i \<noteq> []) (split_nl (''1'' @ [NL])))) = ''  1'' @ [NL]"
proof -
  let ?ps = "init_pstate [] st0"
  let ?opn = "[space, space] @ fence @ [NL]"
  let ?body = "[''  print(1)'' @ [NL]]"
  have h1: "state ?ps = Hdl" and h2: "py_block_snippet ?ps = []"
    by (simp_all add: init_pstate_def)
  have h3: "startswith (strip ?opn) fence" by (simp add: parse_defs)
  have h4: "\<forall>b \<in> set ?body. \<not> startswith (strip b) fence" by (simp add: parse_defs)
  have h5: "startswith (strip (fence @ [NL])) fence" by (simp add: parse_defs)
  have h6: "2 = length ?opn - length (lstrip ?opn)" by (simp add: parse_defs)
  have h7: "fst (exec_block demo (concat (map (drop 2) ?body)) (py ?ps)) = Inr (''1'' @ [NL])"
    by (simp add: demo_defs exec_defs init_pstate_def)
  then have h7p: "exec_block demo (concat (map (drop 2) ?body)) (py ?ps) =
      (Inr (''1'' @ [NL]), snd (exec_block demo (concat (map (drop 2) ?body)) (py ?ps)))"
    by (metis prod.collapse)
  have e: "fp_out ?ps @ concat (map (\<lambda>i. replicate 2 space @ i @ [NL])
               (filter (\<lambda>i. strip i \<noteq> []) (split_nl (''1'' @ [NL])))) = ''  1'' @ [NL]"
    by (simp add: parse_defs numeral_2_eq_2)
  from block_output_indented [OF h1 h2 h3 h4 h5 h6 h7p]
  have t: "fp_out (snd (parse_loop demo (?opn # ?body @ [fence @ [NL]]) ?ps)) =
     fp_out ?ps @ concat (map (\<lambda>i. replicate 2 space @ i @ [NL])
               (filter (\<lambda>i. strip i \<noteq> []) (split_nl (''1'' @ [NL]))))"
    by (rule conjunct2)
  have h4e: "\<not> startswith (strip (''  print(1)'' @ [NL])) fence" using h4 by simp
  show ?thesis
    by (intro conjI h1 h2 h3 h4e h5 h6 h7 t e)
qed

text \<open>
  C5 as stated fails: a block opened at indentation 0 whose body prints a line with two
  leading spaces writes that line with its two spaces, so the line written does not begin
  with exactly 0 spaces.
\<close>

theorem own_indentation_kept:
  "length (fence @ [NL]) - length (lstrip (fence @ [NL])) = 0 \<and>
   fst (parse demo [fence @ [NL], ''print('' @ [CHR 0x22] @ ''  x'' @ [CHR 0x22] @ '')'' @ [NL],
          fence @ [NL]] [] None st0) = None \<and>
   fst (snd (parse demo [fence @ [NL], ''print('' @ [CHR 0x22] @ ''  x'' @ [CHR 0x22] @ '')'' @ [NL],
          fence @ [NL]] [] None st0)) = ''  x'' @ [NL] \<and>
   takeWhile ((=) space) (''  x'' @ [NL]) = [space, space] \<and>
   [space, space] \<noteq> replicate 0 space"
  by (simp add: parse_defs demo_defs exec_defs)

subsection \<open>Unpaired markers\<close>

lemma scan_no_marker: "marker \<notin> set b \<Longrightarrow> scan i opn b = []"
proof (induction b arbitrary: i opn)
  case Nil
  then show ?case by simp
next
  case (Cons c b)
  then show ?case by (cases opn) auto
qed

lemma scan_append:
  "(opn = None \<longrightarrow> even (count_list a marker) \<longrightarrow>
      scan i opn (a @ s) = scan i opn a @ scan (i + length a) None s) \<and>
   (opn \<noteq> None \<longrightarrow> odd (count_list a marker) \<longrightarrow>
      scan i opn (a @ s) = scan i opn a @ scan (i + length a) None s)"
proof (induction a arbitrary: i opn)
  case Nil
  then show ?case by (cases opn) simp_all
next
  case (Cons c a)
  show ?case
  proof (cases opn)
    case None
    then show ?thesis
      using Cons.IH [of "Some i" "Suc i"] Cons.IH [of None "Suc i"] by auto
  next
    case (Some k)
    then show ?thesis
      using Cons.IH [of "Some k" "Suc i"] Cons.IH [of None "Suc i"] by auto
  qed
qed

lemma scan_bounds:
  "(s, e) \<in> set (scan i opn a) \<Longrightarrow> (\<forall>k. opn = Some k \<longrightarrow> k < i) \<Longrightarrow> s < e \<and> e \<le> i + length a"
proof (induction a arbitrary: i opn)
  case Nil
  then show ?case by simp
next
  case (Cons c a)
  show ?case
  proof (cases opn)
    case None
    with Cons.prems have "(s, e) \<in> set (scan (Suc i) (if c = marker then Some i else None) a)"
      by (simp split: if_splits)
    from Cons.IH [OF this] show ?thesis by (auto split: if_splits)
  next
    case (Some k)
    with Cons.prems have k: "k < i" by simp
    show ?thesis
    proof (cases "c = marker")
      case True
      with Some Cons.prems have "(s, e) = (k, Suc i) \<or> (s, e) \<in> set (scan (Suc i) None a)"
        by simp
      then show ?thesis
      proof
        assume "(s, e) = (k, Suc i)"
        with k show ?thesis by simp
      next
        assume "(s, e) \<in> set (scan (Suc i) None a)"
        from Cons.IH [OF this] show ?thesis by simp
      qed
    next
      case False
      with Some Cons.prems have "(s, e) \<in> set (scan (Suc i) (Some k) a)" by simp
      from Cons.IH [OF this] k show ?thesis by simp
    qed
  qed
qed

lemma finditer_bounds: "(s, e) \<in> set (finditer a) \<Longrightarrow> s < e \<and> e \<le> length a"
  using scan_bounds [of s e 0 None a] by (simp add: finditer_def)

lemma finditer_unpaired:
  assumes "even (count_list a marker)" and "marker \<notin> set b"
  shows "finditer (a @ marker # b) = finditer a"
proof -
  have "scan 0 None (a @ marker # b) = scan 0 None a @ scan (0 + length a) None (marker # b)"
    using scan_append [of None a 0 "marker # b"] assms(1) by simp
  moreover have "scan (0 + length a) None (marker # b) = []"
    using assms(2) by (simp add: scan_no_marker)
  ultimately show ?thesis by (simp add: finditer_def)
qed

lemma slice_append: "e \<le> length a \<Longrightarrow> slice (a @ t) s e = slice a s e"
  by (simp add: slice_def)

lemma inline_loop_prefix:
  "\<forall>(s, e) \<in> set ms. s < e \<and> e \<le> length a \<Longrightarrow>
   inline_loop I (a @ t) ms ans pos st = inline_loop I a ms ans pos st"
proof (induction ms arbitrary: ans pos st)
  case Nil
  then show ?case by simp
next
  case (Cons m ms)
  obtain s e where m: "m = (s, e)" by (cases m)
  with Cons.prems have b: "s < e" "e \<le> length a" by simp_all
  have 1: "slice (a @ t) (Suc s) (e - Suc 0) = slice a (Suc s) (e - Suc 0)"
    using b by (intro slice_append) simp
  have 2: "slice (a @ t) pos s = slice a pos s"
    using b by (intro slice_append) simp
  show ?case
    using Cons.IH Cons.prems by (simp add: m 1 2 split: prod.splits sum.splits)
qed

lemma inline_loop_pos:
  "inline_loop I l ms ans pos st = (Inr (ans', pos'), st') \<Longrightarrow>
   pos \<le> n \<Longrightarrow> \<forall>(s, e) \<in> set ms. e \<le> n \<Longrightarrow> pos' \<le> n"
proof (induction ms arbitrary: ans pos st)
  case Nil
  then show ?case by simp
next
  case (Cons m ms)
  obtain s e where m: "m = (s, e)" by (cases m)
  from Cons.prems(1) obtain res st1 where
    "inline_loop I l ms (ans @ slice l pos s @ res) e st1 = (Inr (ans', pos'), st')"
    by (auto simp: m split: prod.splits sum.splits)
  moreover have "e \<le> n" using Cons.prems(3) m by simp
  moreover have "\<forall>(s, e) \<in> set ms. e \<le> n" using Cons.prems(3) by simp
  ultimately show ?case by (rule Cons.IH)
qed

text \<open>
  C10: in the plain state, let a line that is not a fence be \<open>a\<close>, a marker, and \<open>b\<close>, with
  an even number of markers in \<open>a\<close> and none in \<open>b\<close> (the marker has no partner). Then the
  fragments evaluated are those of \<open>a\<close> alone, and the line written is the substituted
  \<open>a\<close> followed by the marker and \<open>b\<close> as they are. With no marker in \<open>a\<close> nothing is
  evaluated and the line is written unchanged.
\<close>

theorem unpaired_marker_literal:
  assumes "state ps = Hdl"
    and "\<not> startswith (strip (a @ marker # b)) fence"
    and "even (count_list a marker)"
    and "marker \<notin> set b"
  shows "parse_line I (a @ marker # b) ps =
     (case inline_loop I a (finditer a) [] 0 (py ps) of
        (Inl e, st') \<Rightarrow> (Some e, ps\<lparr>py := st'\<rparr>)
      | (Inr (ans, pos), st') \<Rightarrow>
          (None, ps\<lparr>fp_out := fp_out ps @ ans @ drop pos a @ marker # b, py := st'\<rparr>))"
proof -
  let ?l = "a @ marker # b"
  have f: "finditer ?l = finditer a" using assms(3,4) by (rule finditer_unpaired)
  have bnd: "\<forall>(s, e) \<in> set (finditer a). s < e \<and> e \<le> length a"
    using finditer_bounds by blast
  have loop: "inline_loop I ?l (finditer ?l) [] 0 (py ps) = inline_loop I a (finditer a) [] 0 (py ps)"
    unfolding f using bnd by (rule inline_loop_prefix)
  show ?thesis
  proof (cases "inline_loop I a (finditer a) [] 0 (py ps)")
    case (Pair r st')
    show ?thesis
    proof (cases r)
      case (Inl e)
      with Pair loop assms(1,2) show ?thesis by (simp add: parse_line_def)
    next
      case (Inr ap)
      obtain ans pos where ap: "ap = (ans, pos)" by (cases ap)
      have "pos \<le> length a"
        using inline_loop_pos [of I a "finditer a" "[]" 0 "py ps" ans pos st' "length a"]
          Pair Inr ap bnd by auto
      then have d: "drop pos ?l = drop pos a @ marker # b" by simp
      have "marker \<in> set (ans @ drop pos ?l)" unfolding d by simp
      then have ne: "strip (ans @ drop pos ?l) \<noteq> []" by (rule strip_with_marker)
      show ?thesis
        using Pair Inr ap loop assms(1,2) ne d by (simp add: parse_line_def)
    qed
  qed
qed


text \<open>C10, witness: the lines \<^verbatim>\<open>a`b\<close> and \<^verbatim>\<open>`x = 1` `c\<close>.\<close>

theorem unpaired_marker_literal_witness:
  "state (init_pstate [] st0) = Hdl \<and>
   \<not> startswith (strip (''a'' @ marker # ''b'' @ [NL])) fence \<and>
   even (count_list ''a'' marker) \<and>
   marker \<notin> set (''b'' @ [NL]) \<and>
   fst (parse_line demo (''a'' @ marker # ''b'' @ [NL]) (init_pstate [] st0)) = None \<and>
   fp_out (snd (parse_line demo (''a'' @ marker # ''b'' @ [NL]) (init_pstate [] st0))) =
     ''a'' @ marker # ''b'' @ [NL] \<and>
   py (snd (parse_line demo (''a'' @ marker # ''b'' @ [NL]) (init_pstate [] st0))) = st0 \<and>
   \<not> startswith (strip (([marker] @ ''x = 1'' @ [marker, space]) @ marker # ''c'' @ [NL])) fence \<and>
   even (count_list ([marker] @ ''x = 1'' @ [marker, space]) marker) \<and>
   marker \<notin> set (''c'' @ [NL]) \<and>
   fp_out (snd (parse_line demo (([marker] @ ''x = 1'' @ [marker, space]) @ marker # ''c'' @ [NL])
       (init_pstate [] st0))) = [space, marker] @ ''c'' @ [NL]"
proof -
  let ?ps = "init_pstate [] st0"
  let ?a = "[marker] @ ''x = 1'' @ [marker, space]"
  have h1: "state ?ps = Hdl" by (simp add: init_pstate_def)
  have h2: "\<not> startswith (strip (''a'' @ marker # ''b'' @ [NL])) fence" by (simp add: parse_defs)
  have h3: "even (count_list ''a'' marker)" by simp
  have h4: "marker \<notin> set (''b'' @ [NL])" by simp
  have r1: "inline_loop demo ''a'' (finditer ''a'') [] 0 (py ?ps) = (Inr ([], 0), st0)"
    by (simp add: finditer_def init_pstate_def)
  have t1: "parse_line demo (''a'' @ marker # ''b'' @ [NL]) ?ps =
      (None, ?ps\<lparr>fp_out := fp_out ?ps @ [] @ drop 0 ''a'' @ marker # ''b'' @ [NL], py := st0\<rparr>)"
    using unpaired_marker_literal [OF h1 h2 h3 h4, of demo] by (simp only: r1 prod.case sum.case)
  have g2: "\<not> startswith (strip (?a @ marker # ''c'' @ [NL])) fence" by (simp add: parse_defs)
  have g3: "even (count_list ?a marker)" by simp
  have g4: "marker \<notin> set (''c'' @ [NL])" by simp
  have r2: "inline_loop demo ?a (finditer ?a) [] 0 (py ?ps) =
      (Inr ([], 7), snd (exec_inline demo ''x = 1'' st0))"
    by (simp add: finditer_def init_pstate_def slice_def demo_defs exec_defs)
  have t2: "parse_line demo (?a @ marker # ''c'' @ [NL]) ?ps =
      (None, ?ps\<lparr>fp_out := fp_out ?ps @ [] @ drop 7 ?a @ marker # ''c'' @ [NL],
                  py := snd (exec_inline demo ''x = 1'' st0)\<rparr>)"
    using unpaired_marker_literal [OF h1 g2 g3 g4, of demo] by (simp only: r2 prod.case sum.case)
  have c1: "fst (parse_line demo (''a'' @ marker # ''b'' @ [NL]) ?ps) = None"
    and c2: "fp_out (snd (parse_line demo (''a'' @ marker # ''b'' @ [NL]) ?ps)) =
       ''a'' @ marker # ''b'' @ [NL]"
    and c3: "py (snd (parse_line demo (''a'' @ marker # ''b'' @ [NL]) ?ps)) = st0"
    unfolding t1 by (simp_all add: init_pstate_def)
  have c4: "fp_out (snd (parse_line demo (?a @ marker # ''c'' @ [NL]) ?ps)) =
      [space, marker] @ ''c'' @ [NL]"
    unfolding t2 by (simp add: init_pstate_def)
  show ?thesis
    by (intro conjI h1 h2 h3 h4 c1 c2 c3 g2 g3 g4 c4)
qed

subsection \<open>Lines that come out blank\<close>

lemma scan_skip: "marker \<notin> set w \<Longrightarrow> scan i None (w @ s) = scan (i + length w) None s"
  using scan_append [of None w i s] by (simp add: scan_no_marker)

lemma scan_open:
  "marker \<notin> set src \<Longrightarrow>
   scan j (Some k) (src @ marker # t) = (k, Suc (j + length src)) # scan (Suc (j + length src)) None t"
  by (induction src arbitrary: j) auto

lemma space_not_marker: "\<forall>c \<in> set w. is_space c \<Longrightarrow> marker \<notin> set w"
  using marker_not_space by blast

lemma finditer_single:
  assumes "marker \<notin> set w1" and "marker \<notin> set src" and "marker \<notin> set w2"
  shows "finditer (w1 @ marker # src @ marker # w2) =
           [(length w1, length w1 + length src + 2)]"
proof -
  have "scan 0 None (w1 @ marker # src @ marker # w2) =
        scan (length w1) None (marker # src @ marker # w2)"
    using scan_skip [OF assms(1), of 0] by simp
  also have "\<dots> = scan (Suc (length w1)) (Some (length w1)) (src @ marker # w2)" by simp
  also have "\<dots> = (length w1, Suc (Suc (length w1) + length src)) #
                    scan (Suc (Suc (length w1) + length src)) None w2"
    using assms(2) by (rule scan_open)
  also have "\<dots> = [(length w1, length w1 + length src + 2)]"
    using assms(3) by (simp add: scan_no_marker)
  finally show ?thesis by (simp add: finditer_def)
qed

lemma strip_all_space: "\<forall>c \<in> set w. is_space c \<Longrightarrow> strip w = []"
proof -
  assume "\<forall>c \<in> set w. is_space c"
  then have "lstrip w = []" by (simp add: lstrip_def)
  then show ?thesis by (simp add: strip_def rstrip_def)
qed

lemma strip_single:
  assumes "\<forall>c \<in> set w1. is_space c" and "\<forall>c \<in> set w2. is_space c"
  shows "strip (w1 @ marker # src @ marker # w2) = marker # src @ [marker]"
proof -
  have l: "lstrip (w1 @ marker # src @ marker # w2) = marker # src @ marker # w2"
    using assms(1) marker_not_space by (simp add: lstrip_def dropWhile_append2)
  have "rev (marker # src @ marker # w2) = rev w2 @ marker # rev src @ [marker]" by simp
  moreover have "dropWhile is_space (rev w2 @ marker # rev src @ [marker]) =
                 dropWhile is_space (marker # rev src @ [marker])"
    by (rule dropWhile_append2) (use assms(2) in auto)
  moreover have "dropWhile is_space (marker # rev src @ [marker]) = marker # rev src @ [marker]"
    using marker_not_space by simp
  ultimately have "rstrip (marker # src @ marker # w2) = marker # src @ [marker]"
    by (simp add: rstrip_def)
  with l show ?thesis by (simp add: strip_def)
qed

lemma single_not_fence:
  assumes "\<forall>c \<in> set w1. is_space c" and "\<forall>c \<in> set w2. is_space c" and "marker \<notin> set src"
  shows "\<not> startswith (strip (w1 @ marker # src @ marker # w2)) fence"
proof -
  have "\<not> startswith (marker # src @ [marker]) fence"
    using assms(3) by (cases src) (auto simp: startswith_def)
  then show ?thesis unfolding strip_single [OF assms(1,2)] .
qed

text \<open>
  C8: in the plain state, a line with a marker that is not a fence and whose text after
  the substitutions strips to nothing is not written: the output is as it was. So it is
  for a line that is whitespace, one fragment with an empty result, and whitespace.
\<close>

theorem blank_inline_line_suppressed:
  assumes "state ps = Hdl"
  shows "(\<not> startswith (strip l) fence \<longrightarrow> marker \<in> set l \<longrightarrow>
            inline_loop I l (finditer l) [] 0 (py ps) = (Inr (ans, pos), st') \<longrightarrow>
            strip (ans @ drop pos l) = [] \<longrightarrow>
            parse_line I l ps = (None, ps\<lparr>py := st'\<rparr>)) \<and>
         ((\<forall>c \<in> set w1. is_space c) \<longrightarrow> (\<forall>c \<in> set w2. is_space c) \<longrightarrow>
            marker \<notin> set src \<longrightarrow> exec_inline I src (py ps) = (Inr [], st') \<longrightarrow>
            parse_line I (w1 @ marker # src @ marker # w2) ps = (None, ps\<lparr>py := st'\<rparr>))"
proof (intro conjI impI)
  assume "\<not> startswith (strip l) fence" and "marker \<in> set l"
    and "inline_loop I l (finditer l) [] 0 (py ps) = (Inr (ans, pos), st')"
    and "strip (ans @ drop pos l) = []"
  with assms show "parse_line I l ps = (None, ps\<lparr>py := st'\<rparr>)"
    by (simp add: parse_line_def)
next
  let ?l = "w1 @ marker # src @ marker # w2"
  assume w1: "\<forall>c \<in> set w1. is_space c" and w2: "\<forall>c \<in> set w2. is_space c"
    and src: "marker \<notin> set src" and ex: "exec_inline I src (py ps) = (Inr [], st')"
  have nf: "\<not> startswith (strip ?l) fence" using w1 w2 src by (rule single_not_fence)
  have f: "finditer ?l = [(length w1, length w1 + length src + 2)]"
    using space_not_marker [OF w1] src space_not_marker [OF w2] by (rule finditer_single)
  have s1: "slice ?l (Suc (length w1)) (length w1 + length src + 2 - 1) = src"
    by (simp add: slice_def)
  have s2: "slice ?l 0 (length w1) = w1" by (simp add: slice_def)
  have loop: "inline_loop I ?l (finditer ?l) [] 0 (py ps) =
                (Inr (w1, length w1 + length src + 2), st')"
    unfolding f using ex by (simp only: inline_loop.simps s1 s2) simp
  have d: "drop (length w1 + length src + 2) ?l = w2" by simp
  have b: "strip (w1 @ drop (length w1 + length src + 2) ?l) = []"
    unfolding d using w1 w2 by (intro strip_all_space) auto
  show "parse_line I ?l ps = (None, ps\<lparr>py := st'\<rparr>)"
    using assms nf loop b by (simp add: parse_line_def del: drop_append)
qed


text \<open>C8, witness: the line of the fragment \<^verbatim>\<open>x = 1\<close> alone, which prints nothing.\<close>

theorem blank_inline_line_suppressed_witness:
  "state (init_pstate ''w'' st0) = Hdl \<and>
   \<not> startswith (strip ([marker] @ ''x = 1'' @ [marker, NL])) fence \<and>
   marker \<in> set ([marker] @ ''x = 1'' @ [marker, NL]) \<and>
   inline_loop demo ([marker] @ ''x = 1'' @ [marker, NL])
       (finditer ([marker] @ ''x = 1'' @ [marker, NL])) [] 0 (py (init_pstate ''w'' st0)) =
     (Inr ([], 7), snd (exec_inline demo ''x = 1'' st0)) \<and>
   strip ([] @ drop 7 ([marker] @ ''x = 1'' @ [marker, NL])) = [] \<and>
   parse_line demo ([marker] @ ''x = 1'' @ [marker, NL]) (init_pstate ''w'' st0) =
     (None, (init_pstate ''w'' st0)\<lparr>py := snd (exec_inline demo ''x = 1'' st0)\<rparr>) \<and>
   is_space NL \<and> marker \<notin> set ''x = 1'' \<and>
   exec_inline demo ''x = 1'' (py (init_pstate ''w'' st0)) =
     (Inr [], snd (exec_inline demo ''x = 1'' st0)) \<and>
   parse_line demo ([] @ marker # ''x = 1'' @ marker # [NL]) (init_pstate ''w'' st0) =
     (None, (init_pstate ''w'' st0)\<lparr>py := snd (exec_inline demo ''x = 1'' st0)\<rparr>) \<and>
   fp_out ((init_pstate ''w'' st0)\<lparr>py := snd (exec_inline demo ''x = 1'' st0)\<rparr>) = ''w''"
proof -
  let ?ps = "init_pstate ''w'' st0"
  let ?l = "[marker] @ ''x = 1'' @ [marker, NL]"
  let ?st = "snd (exec_inline demo ''x = 1'' st0)"
  have h1: "state ?ps = Hdl" by (simp add: init_pstate_def)
  have h2: "\<not> startswith (strip ?l) fence" by (simp add: parse_defs)
  have h3: "marker \<in> set ?l" by simp
  have h4: "inline_loop demo ?l (finditer ?l) [] 0 (py ?ps) = (Inr ([], 7), ?st)"
    by (simp add: finditer_def init_pstate_def slice_def demo_defs exec_defs)
  have h5: "strip ([] @ drop 7 ?l) = []" by (simp add: parse_defs)
  have t1: "parse_line demo ?l ?ps = (None, ?ps\<lparr>py := ?st\<rparr>)"
    using h2 h3 h4 h5 by (rule blank_inline_line_suppressed [OF h1, THEN conjunct1, rule_format])
  have g1: "is_space NL" by (simp add: is_space_def)
  have g2: "marker \<notin> set ''x = 1''" by simp
  have g3: "exec_inline demo ''x = 1'' (py ?ps) = (Inr [], ?st)"
    by (simp add: init_pstate_def demo_defs exec_defs)
  have t2: "parse_line demo ([] @ marker # ''x = 1'' @ marker # [NL]) ?ps =
      (None, ?ps\<lparr>py := ?st\<rparr>)"
  proof (rule blank_inline_line_suppressed [OF h1, THEN conjunct2, rule_format])
    show "marker \<notin> set ''x = 1''" by (rule g2)
    show "exec_inline demo ''x = 1'' (py ?ps) = (Inr [], ?st)" by (rule g3)
  qed (simp_all add: g1)
  have o: "fp_out (?ps\<lparr>py := ?st\<rparr>) = ''w''" by (simp add: init_pstate_def)
  show ?thesis
    by (intro conjI h1 h2 h3 h4 h5 t1 g1 g2 g3 t2 o)
qed

end
